theory Spec2Isabelle
  imports Main "HOL-Library.AList"
begin

section \<open>The correlation pipeline of \<^verbatim>\<open>get_aircontrol_kml.py\<close>\<close>

text \<open>
  The script fetches inventory models, inventory items and two GeoJSON feature
  collections from the Sonar REST API, keeps the items of one manufacturer that carry a
  MAC address, and joins them with the coordinates of their assignee.

  Modelling decisions:
  \<^item> The decoded JSON is typed: the keys the script reads are record fields, identifiers
    are \<open>int\<close>, coordinates are an opaque type \<open>'c\<close> (the script only passes them on).
    A response body of the wrong shape makes the subscript raise \<open>KeyError\<close>, as in
    Python.
  \<^item> Strings are \<open>char list\<close>; \<open>str.upper\<close> is modelled on ASCII letters and leaves
    every other character alone.
  \<^item> A Python \<open>dict\<close> is an association list in insertion order with distinct keys;
    \<open>d[k] = v\<close> is \<open>AList.update k v d\<close> (replace in place, or append).
  \<^item> The remote API is a function from requests to responses, fixed during a run; the
    world also records every request sent, in order. The headers and the credentials
    are the same for every request and are left out of the request record.
  \<^item> Exceptions are values: every function that can raise returns \<open>error + 'a\<close>.
\<close>

subsection \<open>Errors\<close>

datatype key = StrKey string | IntKey int

datatype error =
    URLError string
  | APIError string string int
  | KeyError key

subsection \<open>Data\<close>

record model =
  model_id :: int
  manufacturer_id :: int

record item_field =
  data :: string

record item =
  item_id :: int
  assignee_type :: string
  assignee_id :: int
  inventory_model_id :: int
  item_fields :: "item_field list"

record 'c feature =
  properties_id :: int
  geometry_coordinates :: 'c

text \<open>The value stored under an item id by the device filter.\<close>

record device =
  device_assignee_id :: int
  mac :: string

text \<open>
  The three shapes of body the script reads: \<open>{'features': [...]}\<close> and
  \<open>{'paginator': {'total_pages': n}, 'data': [...]}\<close> with models or with items.
\<close>

datatype 'c body =
    FeatureCollection "'c feature list"
  | ModelsPage int "model list"
  | ItemsPage int "item list"

record request =
  url :: string
  params :: "(string \<times> int) list"

record 'c response =
  status_code :: int
  json :: "'c body"

record 'c world =
  server :: "request \<Rightarrow> 'c response"
  log :: "request list"

subsection \<open>URL construction\<close>

definition BASE_URL :: string where
  "BASE_URL = ''https://wilsoncreek.sonar.software/api/v1''"

definition create_url :: "string \<Rightarrow> error + string" where
  "create_url endpoint =
     (if take 1 endpoint \<noteq> ''/'' then Inl (URLError endpoint)
      else Inr (BASE_URL @ endpoint))"

subsection \<open>Raising and sequencing\<close>

text \<open>
  A computation takes the world and returns its result, or the exception it raised,
  with the world it left behind. \<open>io_bind\<close> is sequencing: an exception of the first
  part skips the second.
\<close>

type_synonym ('c, 'a) io = "'c world \<Rightarrow> (error + 'a) \<times> 'c world"

definition io_lift :: "error + 'a \<Rightarrow> ('c, 'a) io" where
  "io_lift r w = (r, w)"

definition io_return :: "'a \<Rightarrow> ('c, 'a) io" where
  "io_return x = io_lift (Inr x)"

definition io_bind :: "('c, 'a) io \<Rightarrow> ('a \<Rightarrow> ('c, 'b) io) \<Rightarrow> ('c, 'b) io" where
  "io_bind m f w = (case m w of (Inl e, w') \<Rightarrow> (Inl e, w') | (Inr x, w') \<Rightarrow> f x w')"

subsection \<open>GET requests\<close>

text \<open>
  \<open>rest_get\<close> drops the keyword arguments that are \<open>None\<close>, builds the URL, sends the
  request (which the world records) and raises \<open>APIError\<close> unless the status is 200.
\<close>

definition rest_get :: "string \<Rightarrow> (string \<times> int option) list \<Rightarrow> ('c, 'c body) io" where
  "rest_get endpoint kwargs w =
     (case create_url endpoint of
        Inl e \<Rightarrow> (Inl e, w)
      | Inr request_url \<Rightarrow>
          (let req = \<lparr>url = request_url, params = [(name, v). (name, Some v) \<leftarrow> kwargs]\<rparr>;
               resp = server w req;
               w' = w\<lparr>log := log w @ [req]\<rparr>
           in if status_code resp \<noteq> 200
              then (Inl (APIError ''GET'' request_url (status_code resp)), w')
              else (Inr (json resp), w')))"

text \<open>The subscripts on the decoded body; a missing key raises \<open>KeyError\<close>.\<close>

fun features :: "'c body \<Rightarrow> error + 'c feature list" where
  "features (FeatureCollection fs) = Inr fs"
| "features (ModelsPage n ms) = Inl (KeyError (StrKey ''features''))"
| "features (ItemsPage n its) = Inl (KeyError (StrKey ''features''))"

fun total_pages :: "'c body \<Rightarrow> error + int" where
  "total_pages (ModelsPage n ms) = Inr n"
| "total_pages (ItemsPage n its) = Inr n"
| "total_pages (FeatureCollection fs) = Inl (KeyError (StrKey ''paginator''))"

text \<open>
  The \<open>data\<close> of a page, read as models or as items. Entries of the other kind lack the
  first key the loop reads; an empty list has no entry to read.
\<close>

fun models_data :: "'c body \<Rightarrow> error + model list" where
  "models_data (ModelsPage n ms) = Inr ms"
| "models_data (ItemsPage n []) = Inr []"
| "models_data (ItemsPage n (x # xs)) = Inl (KeyError (StrKey ''manufacturer_id''))"
| "models_data (FeatureCollection fs) = Inl (KeyError (StrKey ''data''))"

fun items_data :: "'c body \<Rightarrow> error + item list" where
  "items_data (ItemsPage n its) = Inr its"
| "items_data (ModelsPage n []) = Inr []"
| "items_data (ModelsPage n (x # xs)) = Inl (KeyError (StrKey ''assignee_type''))"
| "items_data (FeatureCollection fs) = Inl (KeyError (StrKey ''data''))"

subsection \<open>The geo index\<close>

definition get_all_accounts_coordinates :: "('c, (int \<times> 'c) list) io" where
  "get_all_accounts_coordinates =
     io_bind (rest_get ''/mapping/geojson/accounts'' []) (\<lambda>body.
     io_bind (io_lift (features body)) (\<lambda>geojson.
     io_return (fold (\<lambda>point accounts.
        AList.update (properties_id point) (geometry_coordinates point) accounts) geojson [])))"

definition get_all_network_sites_coordinates :: "('c, (int \<times> 'c) list) io" where
  "get_all_network_sites_coordinates =
     io_bind (rest_get ''/mapping/geojson/network_sites'' []) (\<lambda>body.
     io_bind (io_lift (features body)) (\<lambda>geojson.
     io_return (fold (\<lambda>point network_sites.
        AList.update (properties_id point) (geometry_coordinates point) network_sites) geojson [])))"

text \<open>
  \<open>{**a, **b}\<close>: the entries of \<open>a\<close>, then every entry of \<open>b\<close> assigned in order. The
  accounts are fetched first.
\<close>

definition get_all_coordinates :: "('c, (int \<times> 'c) list) io" where
  "get_all_coordinates =
     io_bind get_all_accounts_coordinates (\<lambda>accounts.
     io_bind get_all_network_sites_coordinates (\<lambda>network_sites.
     io_return (fold (\<lambda>(k, v). AList.update k v) network_sites accounts)))"

subsection \<open>The models of the target manufacturer\<close>

definition model_step :: "model \<Rightarrow> int list \<Rightarrow> int list" where
  "model_step m models = (if manufacturer_id m = 1 then models @ [model_id m] else models)"

primrec models_pages :: "int list \<Rightarrow> int list \<Rightarrow> ('c, int list) io" where
  "models_pages [] models = io_return models"
| "models_pages (page # rest) models =
     io_bind (rest_get ''/inventory/models'' [(''page'', Some page)]) (\<lambda>body.
     io_bind (io_lift (models_data body)) (\<lambda>ms.
     models_pages rest (fold model_step ms models)))"

text \<open>\<open>range(pages)\<close> is \<open>[0..pages - 1]\<close>, empty when \<open>pages \<le> 0\<close>.\<close>

definition get_all_ubiquiti_models :: "('c, int list) io" where
  "get_all_ubiquiti_models =
     io_bind (rest_get ''/inventory/models'' []) (\<lambda>body.
     io_bind (io_lift (total_pages body)) (\<lambda>pages.
     models_pages [0..pages - 1] []))"

subsection \<open>The MAC pattern\<close>

text \<open>
  \<open>str.upper\<close> on ASCII strings: the 26 lower-case letters go to their capitals, every
  other character stays. Python strings are Unicode and \<open>str.upper\<close> maps some
  characters beyond ASCII into the alphabet of the pattern (the ligature U+FB00 becomes
  \<open>FF\<close>); a \<open>char list\<close> holds bytes and cannot follow that. \<open>upper\<close> is
  \<open>str.upper\<close> on the strings that satisfy \<open>is_ascii\<close> and on no others, and every
  statement below about which values match is about ASCII values.
\<close>

definition upper_char :: "char \<Rightarrow> char" where
  "upper_char c =
     (case map_of (zip ''abcdefghijklmnopqrstuvwxyz'' ''ABCDEFGHIJKLMNOPQRSTUVWXYZ'') c of
        Some u \<Rightarrow> u
      | None \<Rightarrow> c)"

definition upper :: "string \<Rightarrow> string" where
  "upper s = map upper_char s"

definition is_ascii :: "string \<Rightarrow> bool" where
  "is_ascii s = list_all (\<lambda>c. of_char c < (128::nat)) s"

text \<open>
  \<open>match("^([0-9A-F]{2}[:-]){5}([0-9A-F]{2})$", s)\<close>, piece by piece. Each piece
  consumes a prefix of the subject and returns the rest, or fails; every piece has one
  way to match, so there is no backtracking. \<open>$\<close> matches at the end of the subject
  and also just before a newline that ends it.
\<close>

definition hex_digit :: "char \<Rightarrow> bool" where
  "hex_digit c = (c \<in> set ''0123456789ABCDEF'')"

definition separator :: "char \<Rightarrow> bool" where
  "separator c = (c \<in> set '':-'')"

fun hex_pair :: "string \<Rightarrow> string option" where
  "hex_pair (a # b # rest) = (if hex_digit a \<and> hex_digit b then Some rest else None)"
| "hex_pair _ = None"

definition pair_sep :: "string \<Rightarrow> string option" where
  "pair_sep s =
     (case hex_pair s of
        None \<Rightarrow> None
      | Some [] \<Rightarrow> None
      | Some (c # rest) \<Rightarrow> (if separator c then Some rest else None))"

primrec repeat_pair_sep :: "nat \<Rightarrow> string \<Rightarrow> string option" where
  "repeat_pair_sep 0 s = Some s"
| "repeat_pair_sep (Suc n) s =
     (case pair_sep s of None \<Rightarrow> None | Some rest \<Rightarrow> repeat_pair_sep n rest)"

definition at_end :: "string \<Rightarrow> bool" where
  "at_end s = (s = [] \<or> s = [CHR 0x0A])"

definition match_mac :: "string \<Rightarrow> bool" where
  "match_mac s =
     (case repeat_pair_sep 5 s of
        None \<Rightarrow> False
      | Some rest \<Rightarrow> (case hex_pair rest of None \<Rightarrow> False | Some rest' \<Rightarrow> at_end rest'))"

subsection \<open>The device filter\<close>

text \<open>
  The body of the loop over the fields of an item: a matching field assigns the
  item's entry. Nothing leaves the loop early.
\<close>

definition field_step :: "item \<Rightarrow> item_field \<Rightarrow> (int \<times> device) list \<Rightarrow> (int \<times> device) list" where
  "field_step it field macs =
     (if match_mac (upper (data field))
      then AList.update (item_id it)
             \<lparr>device_assignee_id = assignee_id it, mac = data field\<rparr> macs
      else macs)"

definition item_step :: "int list \<Rightarrow> item \<Rightarrow> (int \<times> device) list \<Rightarrow> (int \<times> device) list" where
  "item_step models it macs =
     (if assignee_type it \<notin> set [''generic_inventory_assignees'', ''inventory_locations'', ''vehicles'']
      then (if inventory_model_id it \<in> set models
            then fold (field_step it) (item_fields it) macs
            else macs)
      else macs)"

primrec items_pages :: "int list \<Rightarrow> int list \<Rightarrow> (int \<times> device) list \<Rightarrow> ('c, (int \<times> device) list) io" where
  "items_pages models [] macs = io_return macs"
| "items_pages models (page # rest) macs =
     io_bind (rest_get ''/inventory/items'' [(''page'', Some page)]) (\<lambda>body.
     io_bind (io_lift (items_data body)) (\<lambda>its.
     items_pages models rest (fold (item_step models) its macs)))"

definition get_all_active_ubiquiti_inventory_macs :: "('c, (int \<times> device) list) io" where
  "get_all_active_ubiquiti_inventory_macs =
     io_bind get_all_ubiquiti_models (\<lambda>models.
     io_bind (rest_get ''/inventory/items'' []) (\<lambda>body.
     io_bind (io_lift (total_pages body)) (\<lambda>pages.
     items_pages models [0..pages - 1] [])))"

subsection \<open>The join\<close>

text \<open>
  The loop over the keys of \<open>macs\<close>, in insertion order. \<open>coordinates[...]\<close> on a
  missing key raises \<open>KeyError\<close>, which nothing catches.
\<close>

primrec match_loop :: "(int \<times> device) list \<Rightarrow> (int \<times> 'c) list \<Rightarrow> (string \<times> 'c) list
    \<Rightarrow> error + (string \<times> 'c) list" where
  "match_loop [] coordinates matched = Inr matched"
| "match_loop (entry # rest) coordinates matched =
     (case map_of coordinates (device_assignee_id (snd entry)) of
        None \<Rightarrow> Inl (KeyError (IntKey (device_assignee_id (snd entry))))
      | Some c \<Rightarrow> match_loop rest coordinates (AList.update (mac (snd entry)) c matched))"

definition match_coordinates_to_inventory :: "('c, (string \<times> 'c) list) io" where
  "match_coordinates_to_inventory =
     io_bind get_all_active_ubiquiti_inventory_macs (\<lambda>macs.
     io_bind get_all_coordinates (\<lambda>coordinates.
     io_lift (match_loop macs coordinates [])))"

section \<open>The wording of the specification\<close>

text \<open>
  The specification describes the accepted field values in words; these definitions
  follow the words, not the regular expression, so that the two can be compared.
\<close>

definition is_hex :: "char \<Rightarrow> bool" where
  "is_hex c = (c \<in> set ''0123456789abcdefABCDEF'')"

text \<open>The pieces of a string between the characters that satisfy \<open>P\<close>.\<close>

fun split_on :: "(char \<Rightarrow> bool) \<Rightarrow> string \<Rightarrow> string list" where
  "split_on P [] = [[]]"
| "split_on P (c # cs) =
     (if P c then [] # split_on P cs
      else (case split_on P cs of [] \<Rightarrow> [[c]] | g # gs \<Rightarrow> (c # g) # gs))"

definition hex_group :: "string \<Rightarrow> bool" where
  "hex_group g = (length g = 2 \<and> list_all is_hex g)"

text \<open>Six groups of two hex digits, joined by characters that satisfy \<open>P\<close>.\<close>

definition six_hex_groups :: "(char \<Rightarrow> bool) \<Rightarrow> string \<Rightarrow> bool" where
  "six_hex_groups P s = (length (split_on P s) = 6 \<and> list_all hex_group (split_on P s))"

text \<open>All separators colons, or all separators hyphens.\<close>

definition consistent_mac_form :: "string \<Rightarrow> bool" where
  "consistent_mac_form s =
     (six_hex_groups (\<lambda>c. c = CHR '':'') s \<or> six_hex_groups (\<lambda>c. c = CHR ''-'') s)"

text \<open>Every separator a colon or a hyphen, each on its own.\<close>

definition mixed_mac_form :: "string \<Rightarrow> bool" where
  "mixed_mac_form s = six_hex_groups (\<lambda>c. c = CHR '':'' \<or> c = CHR ''-'') s"

text \<open>Trimming as \<open>str.strip\<close> does it, on the ASCII whitespace characters.\<close>

definition whitespace :: "char \<Rightarrow> bool" where
  "whitespace c =
     (c \<in> set [CHR 0x09, CHR 0x0A, CHR 0x0B, CHR 0x0C, CHR 0x0D,
                CHR 0x1C, CHR 0x1D, CHR 0x1E, CHR 0x1F, CHR '' ''])"

definition trim :: "string \<Rightarrow> string" where
  "trim s = rev (dropWhile whitespace (rev (dropWhile whitespace s)))"

definition lower_char :: "char \<Rightarrow> char" where
  "lower_char c =
     (case map_of (zip ''ABCDEFGHIJKLMNOPQRSTUVWXYZ'' ''abcdefghijklmnopqrstuvwxyz'') c of
        Some l \<Rightarrow> l
      | None \<Rightarrow> c)"

definition lower :: "string \<Rightarrow> string" where
  "lower s = map lower_char s"

section \<open>A stub of the remote API\<close>

text \<open>
  The concrete runs below need a server. This one serves the given pages of models and
  of items and the two feature collections, and answers 404 to anything else. A request
  without a page reports the number of pages and carries the first page.
\<close>

definition page_response :: "(int \<Rightarrow> 'a list \<Rightarrow> 'c body) \<Rightarrow> 'a list list \<Rightarrow> (string \<times> int) list
    \<Rightarrow> 'c response" where
  "page_response mk pages ps =
     (case ps of
        [] \<Rightarrow> \<lparr>status_code = 200,
               json = mk (int (length pages)) (case pages of [] \<Rightarrow> [] | p # rest \<Rightarrow> p)\<rparr>
      | [(name, n)] \<Rightarrow>
          (if name = ''page'' \<and> 0 \<le> n \<and> n < int (length pages)
           then \<lparr>status_code = 200, json = mk (int (length pages)) (pages ! nat n)\<rparr>
           else \<lparr>status_code = 404, json = mk (int (length pages)) []\<rparr>)
      | _ \<Rightarrow> \<lparr>status_code = 404, json = mk (int (length pages)) []\<rparr>)"

definition stub_server :: "model list list \<Rightarrow> item list list \<Rightarrow> 'c feature list \<Rightarrow> 'c feature list
    \<Rightarrow> request \<Rightarrow> 'c response" where
  "stub_server model_pages item_pages accounts network_sites req =
     (if url req = BASE_URL @ ''/inventory/models''
        then page_response ModelsPage model_pages (params req)
      else if url req = BASE_URL @ ''/inventory/items''
        then page_response ItemsPage item_pages (params req)
      else if url req = BASE_URL @ ''/mapping/geojson/accounts''
        then \<lparr>status_code = 200, json = FeatureCollection accounts\<rparr>
      else if url req = BASE_URL @ ''/mapping/geojson/network_sites''
        then \<lparr>status_code = 200, json = FeatureCollection network_sites\<rparr>
      else \<lparr>status_code = 404, json = FeatureCollection []\<rparr>)"

section \<open>Requests as the script sends them\<close>

text \<open>
  The request of \<open>rest_get(endpoint)\<close> (no page) and of \<open>rest_get(endpoint, page=p)\<close>.
\<close>

definition page_request :: "string \<Rightarrow> int option \<Rightarrow> request" where
  "page_request endpoint page =
     \<lparr>url = BASE_URL @ endpoint,
      params = (case page of None \<Rightarrow> [] | Some p \<Rightarrow> [(''page'', p)])\<rparr>"

section \<open>Lemmas\<close>

subsection \<open>The pattern and the wording\<close>

lemma hex_digit_upper: "hex_digit (upper_char c) \<longleftrightarrow> is_hex c"
  by (auto simp: hex_digit_def upper_char_def is_hex_def)

lemma separator_upper: "separator (upper_char c) \<longleftrightarrow> separator c"
  by (auto simp: separator_def upper_char_def)

lemma newline_upper: "upper_char c = CHR 0x0A \<longleftrightarrow> c = CHR 0x0A"
  by (auto simp: upper_char_def)

lemma is_hex_not_separator: "is_hex c \<Longrightarrow> \<not> separator c"
  by (auto simp: is_hex_def separator_def)

lemma hex_pair_upper:
  "hex_pair (upper s) =
     (case s of a # b # rest \<Rightarrow> if is_hex a \<and> is_hex b then Some (upper rest) else None
      | _ \<Rightarrow> None)"
  by (cases s rule: hex_pair.cases) (simp_all add: upper_def hex_digit_upper)

lemma pair_sep_upper:
  "pair_sep (upper s) =
     (case s of a # b # c # rest \<Rightarrow>
        if is_hex a \<and> is_hex b \<and> separator c then Some (upper rest) else None
      | _ \<Rightarrow> None)"
  by (cases s rule: hex_pair.cases; cases "tl (tl s)")
    (simp_all add: pair_sep_def upper_def hex_digit_upper separator_upper)

lemma at_end_upper: "at_end (upper t) \<longleftrightarrow> t = [] \<or> t = [CHR 0x0A]"
  by (cases t) (auto simp: at_end_def upper_def newline_upper)

lemma split_on_nonempty: "split_on P s \<noteq> []"
  by (induction s) (auto split: list.splits)

lemma split_on_Cons:
  "split_on P (c # cs) =
     (if P c then [] # split_on P cs
      else (c # hd (split_on P cs)) # tl (split_on P cs))"
  using split_on_nonempty [of P cs] by (auto split: list.splits)

lemma split_on_no_sep: "(\<forall>c\<in>set s. \<not> P c) \<Longrightarrow> split_on P s = [s]"
  by (induction s) auto

lemma split_on_length_one: "length (split_on P s) = 1 \<Longrightarrow> split_on P s = [s]"
proof (induction s)
  case Nil
  then show ?case by simp
next
  case (Cons c cs)
  then show ?case
    using split_on_nonempty [of P cs]
    by (cases "split_on P cs") (auto split: if_splits)
qed

lemma split_on_single:
  "(length (split_on P s) = 1 \<and> list_all hex_group (split_on P s)) \<longleftrightarrow>
   (\<exists>a b. s = [a, b] \<and> is_hex a \<and> is_hex b \<and> \<not> P a \<and> \<not> P b)"
proof
  assume l: "length (split_on P s) = 1 \<and> list_all hex_group (split_on P s)"
  then have eq: "split_on P s = [s]" by (simp add: split_on_length_one)
  with l have "hex_group s" by simp
  then obtain a b where s: "s = [a, b]" and h: "is_hex a" "is_hex b"
    by (cases s; cases "tl s") (auto simp: hex_group_def)
  from eq s have "\<not> P a \<and> \<not> P b"
    by (auto split: if_splits list.splits)
  with s h show "\<exists>a b. s = [a, b] \<and> is_hex a \<and> is_hex b \<and> \<not> P a \<and> \<not> P b" by blast
next
  assume "\<exists>a b. s = [a, b] \<and> is_hex a \<and> is_hex b \<and> \<not> P a \<and> \<not> P b"
  then show "length (split_on P s) = 1 \<and> list_all hex_group (split_on P s)"
    by (auto simp: hex_group_def)
qed

lemma split_on_more:
  "(length (split_on P s) = Suc (Suc n) \<and> list_all hex_group (split_on P s)) \<longleftrightarrow>
   (\<exists>a b c rest. s = a # b # c # rest \<and> is_hex a \<and> is_hex b \<and> \<not> P a \<and> \<not> P b \<and> P c
      \<and> length (split_on P rest) = Suc n \<and> list_all hex_group (split_on P rest))"
  (is "?L \<longleftrightarrow> ?R")
proof
  assume L: ?L
  show ?R
  proof (cases s)
    case Nil
    with L show ?thesis by simp
  next
    case s1: (Cons a s')
    with L have na: "\<not> P a" by (auto simp: hex_group_def)
    show ?thesis
    proof (cases s')
      case Nil
      with L s1 na show ?thesis by simp
    next
      case s2: (Cons b s'')
      have nb: "\<not> P b"
        using L s1 s2 na split_on_nonempty [of P s''] 
        by (cases "split_on P s''") (auto simp: hex_group_def split: if_splits)
      show ?thesis
      proof (cases s'')
        case Nil
        with L s1 s2 na nb show ?thesis by simp
      next
        case s3: (Cons c rest)
        have pc: "P c"
          using L s1 s2 s3 na nb split_on_nonempty [of P rest]
          by (cases "split_on P rest") (auto simp: hex_group_def split: if_splits)
        from L s1 s2 s3 na nb pc show ?thesis
          by (auto simp: hex_group_def)
      qed
    qed
  qed
next
  assume ?R
  then show ?L by (auto simp: hex_group_def)
qed


lemma pattern_exact:
  "(case repeat_pair_sep n (upper s) of None \<Rightarrow> False
    | Some r \<Rightarrow> (case hex_pair r of None \<Rightarrow> False | Some r' \<Rightarrow> r' = [])) \<longleftrightarrow>
   (length (split_on separator s) = Suc n \<and> list_all hex_group (split_on separator s))"
proof (induction n arbitrary: s)
  case 0
  have "(case hex_pair (upper s) of None \<Rightarrow> False | Some r' \<Rightarrow> r' = []) \<longleftrightarrow>
        (\<exists>a b. s = [a, b] \<and> is_hex a \<and> is_hex b)"
    by (cases s rule: hex_pair.cases) (auto simp: upper_def hex_digit_upper)
  then show ?case
    using split_on_single [of separator s] by (auto dest: is_hex_not_separator)
next
  case (Suc n)
  show ?case
  proof (cases "\<exists>a b c rest. s = a # b # c # rest \<and> is_hex a \<and> is_hex b \<and> separator c")
    case True
    then obtain a b c rest where s: "s = a # b # c # rest" and h: "is_hex a" "is_hex b" "separator c"
      by blast
    have "pair_sep (upper s) = Some (upper rest)"
      using s h by (simp add: pair_sep_upper)
    then show ?thesis
      using Suc.IH [of rest] split_on_more [of separator s n] s h
      by (auto dest: is_hex_not_separator)
  next
    case False
    then have "pair_sep (upper s) = None"
      by (auto simp: pair_sep_upper split: list.splits)
    then show ?thesis
      using False split_on_more [of separator s n] by auto
  qed
qed

lemma pattern_newline:
  "(case repeat_pair_sep n (upper s) of None \<Rightarrow> False
    | Some r \<Rightarrow> (case hex_pair r of None \<Rightarrow> False | Some r' \<Rightarrow> r' = [CHR 0x0A])) \<longleftrightarrow>
   (s \<noteq> [] \<and> last s = CHR 0x0A \<and>
    (case repeat_pair_sep n (upper (butlast s)) of None \<Rightarrow> False
     | Some r \<Rightarrow> (case hex_pair r of None \<Rightarrow> False | Some r' \<Rightarrow> r' = [])))"
proof (induction n arbitrary: s)
  case 0
  show ?case
  proof (cases s rule: hex_pair.cases)
    case (1 a b rest)
    have "upper rest = [CHR 0x0A] \<longleftrightarrow> rest = [CHR 0x0A]"
      by (cases rest) (auto simp: upper_def newline_upper)
    moreover have "rest \<noteq> [] \<Longrightarrow> upper (butlast rest) = [] \<longleftrightarrow> (\<exists>x. rest = [x])"
      by (cases rest) (auto simp: upper_def)
    ultimately show ?thesis
      using 1 by (cases "rest = []") (auto simp: hex_pair_upper upper_def)
  qed (simp_all add: upper_def)
next
  case (Suc n)
  show ?case
  proof (cases "\<exists>a b c rest. s = a # b # c # rest \<and> is_hex a \<and> is_hex b \<and> separator c")
    case True
    then obtain a b c rest where s: "s = a # b # c # rest" and h: "is_hex a" "is_hex b" "separator c"
      by blast
    show ?thesis
    proof (cases "rest = []")
      case True
      have r: "repeat_pair_sep n [] = None \<or> repeat_pair_sep n [] = Some []"
        by (cases n) (auto simp: pair_sep_def)
      have "pair_sep (upper s) = Some (upper [])"
        using s h True by (simp add: pair_sep_upper)
      then have "pair_sep (upper s) = Some []"
        by (simp add: upper_def)
      then have l: "\<not> (case repeat_pair_sep (Suc n) (upper s) of None \<Rightarrow> False
          | Some r \<Rightarrow> (case hex_pair r of None \<Rightarrow> False | Some r' \<Rightarrow> r' = [CHR 0x0A]))"
        using r by auto
      have "last s \<noteq> CHR 0x0A"
        using s h True by (auto simp: separator_def)
      with l show ?thesis by blast
    next
      case False
      then have "pair_sep (upper (butlast s)) = Some (upper (butlast rest))"
        using s h by (simp add: pair_sep_upper)
      moreover have "pair_sep (upper s) = Some (upper rest)"
        using s h by (simp add: pair_sep_upper)
      ultimately show ?thesis
        using Suc.IH [of rest] s False by simp
    qed
  next
    case False
    then have n1: "pair_sep (upper s) = None"
      by (auto simp: pair_sep_upper split: list.splits)
    have "pair_sep (upper (butlast s)) = None"
    proof (cases "\<exists>a b c rest. butlast s = a # b # c # rest")
      case True
      then obtain a b c rest where b: "butlast s = a # b # c # rest" by blast
      then have "s \<noteq> []" by auto
      then have "s = (a # b # c # rest) @ [last s]"
        using b append_butlast_last_id [of s] by simp
      with False have "\<not> (is_hex a \<and> is_hex b \<and> separator c)" by auto
      with b show ?thesis by (auto simp: pair_sep_upper)
    next
      case False
      then show ?thesis by (auto simp: pair_sep_upper split: list.splits)
    qed
    with n1 show ?thesis by simp
  qed
qed

lemma separator_eq: "separator = (\<lambda>c. c = CHR '':'' \<or> c = CHR ''-'')"
  by (auto simp: separator_def fun_eq_iff)

lemma match_mac_upper_iff:
  "match_mac (upper v) \<longleftrightarrow>
     mixed_mac_form v \<or> (v \<noteq> [] \<and> last v = CHR 0x0A \<and> mixed_mac_form (butlast v))"
proof -
  have "match_mac (upper v) \<longleftrightarrow>
     (case repeat_pair_sep 5 (upper v) of None \<Rightarrow> False
      | Some r \<Rightarrow> (case hex_pair r of None \<Rightarrow> False | Some r' \<Rightarrow> r' = []))
     \<or> (case repeat_pair_sep 5 (upper v) of None \<Rightarrow> False
      | Some r \<Rightarrow> (case hex_pair r of None \<Rightarrow> False | Some r' \<Rightarrow> r' = [CHR 0x0A]))"
    by (auto simp: match_mac_def at_end_def split: option.splits)
  then show ?thesis
    unfolding pattern_newline pattern_exact mixed_mac_form_def six_hex_groups_def separator_eq
    by simp
qed

lemma upper_char_idem: "upper_char (upper_char c) = upper_char c"
  by (auto simp: upper_char_def)

lemma upper_lower_char: "upper_char (lower_char c) = upper_char c"
  by (auto simp: upper_char_def lower_char_def)

lemma upper_idem: "upper (upper s) = upper s"
  by (simp add: upper_def upper_char_idem)

lemma upper_lower: "upper (lower s) = upper s"
  by (simp add: upper_def lower_def upper_lower_char)

subsection \<open>Trimming\<close>

lemma split_on_chars:
  "c \<in> set s \<Longrightarrow> P c \<or> (\<exists>g\<in>set (split_on P s). c \<in> set g)"
proof (induction s)
  case Nil
  then show ?case by simp
next
  case (Cons a s)
  obtain g gs where gs: "split_on P s = g # gs"
    using split_on_nonempty [of P s] by (cases "split_on P s") auto
  show ?case
  proof (cases "c = a")
    case True
    then show ?thesis using gs by auto
  next
    case False
    with Cons.prems have "c \<in> set s" by simp
    from Cons.IH [OF this] show ?thesis using gs by auto
  qed
qed

lemma is_hex_not_whitespace: "is_hex c \<Longrightarrow> \<not> whitespace c"
  by (auto simp: is_hex_def whitespace_def)

lemma mixed_mac_form_no_whitespace:
  assumes "mixed_mac_form s" and "c \<in> set s"
  shows "\<not> whitespace c"
proof -
  from assms(1) have groups: "list_all hex_group (split_on (\<lambda>c. c = CHR '':'' \<or> c = CHR ''-'') s)"
    by (simp add: mixed_mac_form_def six_hex_groups_def)
  from split_on_chars [OF assms(2), of "\<lambda>c. c = CHR '':'' \<or> c = CHR ''-''"]
  consider "c = CHR '':'' \<or> c = CHR ''-''"
    | g where "g \<in> set (split_on (\<lambda>c. c = CHR '':'' \<or> c = CHR ''-'') s)" "c \<in> set g"
    by blast
  then show ?thesis
  proof cases
    case 1
    then show ?thesis by (auto simp: whitespace_def)
  next
    case 2
    with groups have "is_hex c"
      by (auto simp: list_all_iff hex_group_def)
    then show ?thesis by (rule is_hex_not_whitespace)
  qed
qed

lemma mixed_mac_form_nonempty: "mixed_mac_form s \<Longrightarrow> s \<noteq> []"
  by (auto simp: mixed_mac_form_def six_hex_groups_def)

lemma trim_no_whitespace: "\<forall>c\<in>set s. \<not> whitespace c \<Longrightarrow> trim s = s"
proof -
  assume a: "\<forall>c\<in>set s. \<not> whitespace c"
  then have "dropWhile whitespace s = s"
    by (cases s) auto
  moreover have "dropWhile whitespace (rev s) = rev s"
    using a by (cases "rev s") auto
  ultimately show ?thesis by (simp add: trim_def)
qed

lemma trim_final_newline:
  assumes "\<forall>c\<in>set m. \<not> whitespace c" and "m \<noteq> []"
  shows "trim (m @ [CHR 0x0A]) = m"
proof -
  have "dropWhile whitespace (m @ [CHR 0x0A]) = m @ [CHR 0x0A]"
    using assms by (cases m) auto
  moreover have "dropWhile whitespace (rev m) = rev m"
    using assms(1) by (cases "rev m") auto
  moreover have "whitespace (CHR 0x0A)"
    by (simp add: whitespace_def)
  ultimately show ?thesis by (simp add: trim_def)
qed

lemma trim_last_not_whitespace: "trim s \<noteq> [] \<Longrightarrow> \<not> whitespace (last (trim s))"
proof -
  assume "trim s \<noteq> []"
  then have ne: "dropWhile whitespace (rev (dropWhile whitespace s)) \<noteq> []"
    by (simp add: trim_def)
  then have "\<not> whitespace (hd (dropWhile whitespace (rev (dropWhile whitespace s))))"
    by (rule hd_dropWhile)
  then show ?thesis
    using ne by (simp add: trim_def last_rev)
qed

lemma match_mac_trim:
  "match_mac (upper v) \<longleftrightarrow>
     match_mac (upper (trim v)) \<and> (v = trim v \<or> v = trim v @ [CHR 0x0A])"
proof
  assume m: "match_mac (upper v)"
  then consider "mixed_mac_form v"
    | "v \<noteq> []" "last v = CHR 0x0A" "mixed_mac_form (butlast v)"
    by (auto simp: match_mac_upper_iff)
  then show "match_mac (upper (trim v)) \<and> (v = trim v \<or> v = trim v @ [CHR 0x0A])"
  proof cases
    case 1
    then have "trim v = v"
      by (intro trim_no_whitespace) (auto dest: mixed_mac_form_no_whitespace)
    with m show ?thesis by simp
  next
    case 2
    have v: "v = butlast v @ [CHR 0x0A]"
      using 2(1,2) append_butlast_last_id [of v] by simp
    have "trim (butlast v @ [CHR 0x0A]) = butlast v"
      using 2(3) by (intro trim_final_newline)
        (auto dest: mixed_mac_form_no_whitespace mixed_mac_form_nonempty)
    with v have t: "trim v = butlast v" by simp
    with 2(3) v show ?thesis by (simp add: match_mac_upper_iff)
  qed
next
  assume a: "match_mac (upper (trim v)) \<and> (v = trim v \<or> v = trim v @ [CHR 0x0A])"
  show "match_mac (upper v)"
  proof (cases "v = trim v")
    case True
    with a show ?thesis by simp
  next
    case False
    with a have v: "v = trim v @ [CHR 0x0A]" by simp
    have "\<not> (trim v \<noteq> [] \<and> last (trim v) = CHR 0x0A)"
      using trim_last_not_whitespace [of v] by (auto simp: whitespace_def)
    with a have "mixed_mac_form (trim v)"
      by (auto simp: match_mac_upper_iff)
    moreover have "v \<noteq> []" "last v = CHR 0x0A" "butlast v = trim v"
      using v by (metis snoc_eq_iff_butlast)+
    ultimately show ?thesis
      by (simp add: match_mac_upper_iff)
  qed
qed

subsection \<open>The device filter\<close>

lemma field_step_other:
  "k \<noteq> item_id it \<Longrightarrow> map_of (field_step it f macs) k = map_of macs k"
  by (simp add: field_step_def AList.update_conv')

lemma fold_field_step_none:
  "filter (\<lambda>f. match_mac (upper (data f))) fs = [] \<Longrightarrow> fold (field_step it) fs macs = macs"
  by (induction fs arbitrary: macs) (auto simp: field_step_def split: if_splits)

lemma fold_field_step_last:
  "filter (\<lambda>f. match_mac (upper (data f))) fs \<noteq> [] \<Longrightarrow>
   map_of (fold (field_step it) fs macs) (item_id it) =
     Some \<lparr>device_assignee_id = assignee_id it,
           mac = data (last (filter (\<lambda>f. match_mac (upper (data f))) fs))\<rparr>"
proof (induction fs arbitrary: macs)
  case Nil
  then show ?case by simp
next
  case (Cons f fs)
  show ?case
  proof (cases "filter (\<lambda>f. match_mac (upper (data f))) fs = []")
    case True
    with Cons.prems have m: "match_mac (upper (data f))"
      by (auto split: if_splits)
    have "fold (field_step it) (f # fs) macs = field_step it f macs"
      using True by (simp add: fold_field_step_none)
    moreover have "map_of (field_step it f macs) (item_id it) =
        Some \<lparr>device_assignee_id = assignee_id it, mac = data f\<rparr>"
      using m by (simp add: field_step_def AList.update_conv')
    ultimately show ?thesis
      using True m by simp
  next
    case False
    with Cons.IH [of "field_step it f macs"] show ?thesis by simp
  qed
qed

lemma fold_field_step_distinct:
  "distinct (map fst macs) \<Longrightarrow> distinct (map fst (fold (field_step it) fs macs))"
  by (induction fs arbitrary: macs) (auto simp: field_step_def AList.distinct_update)

lemma distinct_single_entry:
  "distinct (map fst al) \<Longrightarrow> map_of al k = Some v \<Longrightarrow> filter (\<lambda>e. fst e = k) al = [(k, v)]"
proof (induction al)
  case Nil
  then show ?case by simp
next
  case (Cons e al)
  show ?case
  proof (cases "fst e = k")
    case True
    with Cons.prems have "\<forall>x\<in>set al. fst x \<noteq> k" by (force simp: image_iff)
    then have "filter (\<lambda>e. fst e = k) al = []" by (simp add: filter_empty_conv)
    with True Cons.prems show ?thesis by (cases e) force
  next
    case False
    with Cons show ?thesis by auto
  qed
qed

subsection \<open>Pagination\<close>

lemma rest_get_probe:
  assumes "endpoint = CHR ''/'' # e" 
    and "status_code (server w (page_request endpoint None)) = 200"
  shows "rest_get endpoint [] w =
     (Inr (json (server w (page_request endpoint None))),
      w\<lparr>log := log w @ [page_request endpoint None]\<rparr>)"
  using assms by (simp add: rest_get_def create_url_def page_request_def Let_def)

lemma rest_get_page:
  assumes "endpoint = CHR ''/'' # e" 
    and "status_code (server w (page_request endpoint (Some p))) = 200"
  shows "rest_get endpoint [(''page'', Some p)] w =
     (Inr (json (server w (page_request endpoint (Some p)))),
      w\<lparr>log := log w @ [page_request endpoint (Some p)]\<rparr>)"
  using assms by (simp add: rest_get_def create_url_def page_request_def Let_def)

lemma fold_model_step:
  "fold model_step ms acc = acc @ map model_id (filter (\<lambda>m. manufacturer_id m = 1) ms)"
  by (induction ms arbitrary: acc) (auto simp: model_step_def)

lemma models_pages_ok:
  assumes "\<forall>p\<in>set ps.
      status_code (server w (page_request ''/inventory/models'' (Some p))) = 200
      \<and> models_data (json (server w (page_request ''/inventory/models'' (Some p)))) = Inr (recs p)"
  shows "models_pages ps acc w =
     (Inr (fold model_step (concat (map recs ps)) acc),
      w\<lparr>log := log w @ map (\<lambda>p. page_request ''/inventory/models'' (Some p)) ps\<rparr>)"
  using assms
proof (induction ps arbitrary: acc w)
  case Nil
  then show ?case by (simp add: io_return_def io_lift_def)
next
  case (Cons p ps)
  let ?w = "w\<lparr>log := log w @ [page_request ''/inventory/models'' (Some p)]\<rparr>"
  have get: "rest_get ''/inventory/models'' [(''page'', Some p)] w =
     (Inr (json (server w (page_request ''/inventory/models'' (Some p)))), ?w)"
    using Cons.prems by (intro rest_get_page) auto
  have data: "models_data (json (server w (page_request ''/inventory/models'' (Some p)))) = Inr (recs p)"
    using Cons.prems by simp
  have rest: "models_pages ps (fold model_step (recs p) acc) ?w =
     (Inr (fold model_step (concat (map recs ps)) (fold model_step (recs p) acc)),
      ?w\<lparr>log := log ?w @ map (\<lambda>p. page_request ''/inventory/models'' (Some p)) ps\<rparr>)"
    using Cons.prems by (intro Cons.IH) simp
  show ?case
    by (simp add: io_bind_def io_lift_def get data rest)
qed

lemma items_pages_ok:
  assumes "\<forall>p\<in>set ps.
      status_code (server w (page_request ''/inventory/items'' (Some p))) = 200
      \<and> items_data (json (server w (page_request ''/inventory/items'' (Some p)))) = Inr (recs p)"
  shows "items_pages models ps acc w =
     (Inr (fold (item_step models) (concat (map recs ps)) acc),
      w\<lparr>log := log w @ map (\<lambda>p. page_request ''/inventory/items'' (Some p)) ps\<rparr>)"
  using assms
proof (induction ps arbitrary: acc w)
  case Nil
  then show ?case by (simp add: io_return_def io_lift_def)
next
  case (Cons p ps)
  let ?w = "w\<lparr>log := log w @ [page_request ''/inventory/items'' (Some p)]\<rparr>"
  have get: "rest_get ''/inventory/items'' [(''page'', Some p)] w =
     (Inr (json (server w (page_request ''/inventory/items'' (Some p)))), ?w)"
    using Cons.prems by (intro rest_get_page) auto
  have data: "items_data (json (server w (page_request ''/inventory/items'' (Some p)))) = Inr (recs p)"
    using Cons.prems by simp
  have rest: "items_pages models ps (fold (item_step models) (recs p) acc) ?w =
     (Inr (fold (item_step models) (concat (map recs ps)) (fold (item_step models) (recs p) acc)),
      ?w\<lparr>log := log ?w @ map (\<lambda>p. page_request ''/inventory/items'' (Some p)) ps\<rparr>)"
    using Cons.prems by (intro Cons.IH) simp
  show ?case
    by (simp add: io_bind_def io_lift_def get data rest)
qed

lemma get_all_ubiquiti_models_ok:
  assumes "status_code (server w (page_request ''/inventory/models'' None)) = 200"
    and "total_pages (json (server w (page_request ''/inventory/models'' None))) = Inr N"
    and "\<forall>p\<in>set [0..N - 1].
      status_code (server w (page_request ''/inventory/models'' (Some p))) = 200
      \<and> models_data (json (server w (page_request ''/inventory/models'' (Some p)))) = Inr (recs p)"
  shows "get_all_ubiquiti_models w =
     (Inr (fold model_step (concat (map recs [0..N - 1])) []),
      w\<lparr>log := log w @ page_request ''/inventory/models'' None
          # map (\<lambda>p. page_request ''/inventory/models'' (Some p)) [0..N - 1]\<rparr>)"
proof -
  let ?w = "w\<lparr>log := log w @ [page_request ''/inventory/models'' None]\<rparr>"
  have get: "rest_get ''/inventory/models'' [] w =
     (Inr (json (server w (page_request ''/inventory/models'' None))), ?w)"
    using assms(1) by (intro rest_get_probe) auto
  have "models_pages [0..N - 1] [] ?w =
     (Inr (fold model_step (concat (map recs [0..N - 1])) []),
      ?w\<lparr>log := log ?w @ map (\<lambda>p. page_request ''/inventory/models'' (Some p)) [0..N - 1]\<rparr>)"
    using assms(3) by (intro models_pages_ok) simp
  then show ?thesis
    by (simp add: get_all_ubiquiti_models_def io_bind_def io_lift_def get assms(2))
qed


lemma get_all_macs_ok:
  assumes "status_code (server w (page_request ''/inventory/models'' None)) = 200"
    and "total_pages (json (server w (page_request ''/inventory/models'' None))) = Inr N"
    and "\<forall>p\<in>set [0..N - 1].
      status_code (server w (page_request ''/inventory/models'' (Some p))) = 200
      \<and> models_data (json (server w (page_request ''/inventory/models'' (Some p)))) = Inr (model_records p)"
    and "status_code (server w (page_request ''/inventory/items'' None)) = 200"
    and "total_pages (json (server w (page_request ''/inventory/items'' None))) = Inr M"
    and "\<forall>p\<in>set [0..M - 1].
      status_code (server w (page_request ''/inventory/items'' (Some p))) = 200
      \<and> items_data (json (server w (page_request ''/inventory/items'' (Some p)))) = Inr (item_records p)"
  shows "get_all_active_ubiquiti_inventory_macs w =
     (Inr (fold (item_step (fold model_step (concat (map model_records [0..N - 1])) []))
             (concat (map item_records [0..M - 1])) []),
      w\<lparr>log := log w
          @ page_request ''/inventory/models'' None
          # map (\<lambda>p. page_request ''/inventory/models'' (Some p)) [0..N - 1]
          @ page_request ''/inventory/items'' None
          # map (\<lambda>p. page_request ''/inventory/items'' (Some p)) [0..M - 1]\<rparr>)"
proof -
  let ?models = "fold model_step (concat (map model_records [0..N - 1])) []"
  let ?w1 = "w\<lparr>log := log w @ page_request ''/inventory/models'' None
          # map (\<lambda>p. page_request ''/inventory/models'' (Some p)) [0..N - 1]\<rparr>"
  let ?w2 = "?w1\<lparr>log := log ?w1 @ [page_request ''/inventory/items'' None]\<rparr>"
  have models: "get_all_ubiquiti_models w = (Inr ?models, ?w1)"
    using assms(1,2,3) by (rule get_all_ubiquiti_models_ok)
  have get: "rest_get ''/inventory/items'' [] ?w1 =
     (Inr (json (server ?w1 (page_request ''/inventory/items'' None))), ?w2)"
    using assms(4) by (intro rest_get_probe) auto
  have pages: "items_pages ?models [0..M - 1] [] ?w2 =
     (Inr (fold (item_step ?models) (concat (map item_records [0..M - 1])) []),
      ?w2\<lparr>log := log ?w2 @ map (\<lambda>p. page_request ''/inventory/items'' (Some p)) [0..M - 1]\<rparr>)"
    using assms(6) by (intro items_pages_ok) simp
  show ?thesis
    using assms(5) pages
    by (simp add: get_all_active_ubiquiti_inventory_macs_def io_bind_def io_lift_def models get)
qed

lemma page_requests_distinct:
  "distinct (page_request ''/inventory/models'' None
          # map (\<lambda>p. page_request ''/inventory/models'' (Some p)) [0..N - 1]
          @ page_request ''/inventory/items'' None
          # map (\<lambda>p. page_request ''/inventory/items'' (Some p)) [0..M - 1])"
  by (auto simp: distinct_map inj_on_def page_request_def)

subsection \<open>The geo index and the join\<close>

lemma fold_update_distinct:
  "distinct (map fst acc) \<Longrightarrow>
   distinct (map fst (fold (\<lambda>point acc. AList.update (f point) (g point) acc) xs acc))"
  by (induction xs arbitrary: acc) (simp_all add: AList.distinct_update)

lemma network_sites_distinct:
  "get_all_network_sites_coordinates w = (Inr network_sites, w') \<Longrightarrow> distinct (map fst network_sites)"
  by (auto simp: get_all_network_sites_coordinates_def io_bind_def io_lift_def io_return_def
      fold_update_distinct split: prod.splits sum.splits)

lemma merge_map_of:
  "distinct (map fst bs) \<Longrightarrow>
   map_of (fold (\<lambda>(k, v). AList.update k v) bs as) = map_of as ++ map_of bs"
proof (induction bs arbitrary: as)
  case Nil
  then show ?case by simp
next
  case (Cons b bs)
  obtain k v where b: "b = (k, v)" by (cases b)
  from Cons.prems b have k: "k \<notin> dom (map_of bs)"
    by (simp add: dom_map_of_conv_image_fst)
  have d: "distinct (map fst bs)"
    using Cons.prems by simp
  have "map_of (fold (\<lambda>(k, v). AList.update k v) (b # bs) as)
      = map_of (fold (\<lambda>(k, v). AList.update k v) bs (AList.update k v as))"
    using b by simp
  also have "\<dots> = map_of (AList.update k v as) ++ map_of bs"
    using d by (rule Cons.IH)
  also have "\<dots> = (map_of as)(k \<mapsto> v) ++ map_of bs"
    by (simp only: AList.update_conv')
  also have "\<dots> = map_of as ++ map_of (b # bs)"
    using k b by (auto simp: map_add_def fun_eq_iff split: option.splits)
  finally show ?case .
qed

lemma match_loop_missing:
  "\<exists>e\<in>set macs. map_of coordinates (device_assignee_id (snd e)) = None \<Longrightarrow>
   \<exists>e\<in>set macs. match_loop macs coordinates matched = Inl (KeyError (IntKey (device_assignee_id (snd e))))
      \<and> map_of coordinates (device_assignee_id (snd e)) = None"
proof (induction macs arbitrary: matched)
  case Nil
  then show ?case by simp
next
  case (Cons e macs)
  show ?case
  proof (cases "map_of coordinates (device_assignee_id (snd e))")
    case None
    then show ?thesis by simp
  next
    case (Some c)
    with Cons.prems have "\<exists>e\<in>set macs. map_of coordinates (device_assignee_id (snd e)) = None"
      by auto
    from Cons.IH [OF this, of "AList.update (mac (snd e)) c matched"] Some
    show ?thesis by auto
  qed
qed

subsection \<open>Evaluating concrete runs\<close>

lemma upto_0_1: "[0..(2::int) - 1] = [0, 1]"
  by (simp add: upto_rec1)

lemma upto_0_1': "[0..(1::int)] = [0, 1]"
  by (simp add: upto_rec1)

lemmas run_defs =
  match_coordinates_to_inventory_def get_all_active_ubiquiti_inventory_macs_def
  get_all_ubiquiti_models_def get_all_coordinates_def get_all_accounts_coordinates_def
  get_all_network_sites_coordinates_def io_bind_def io_lift_def io_return_def
  rest_get_def create_url_def stub_server_def page_response_def page_request_def
  model_step_def item_step_def field_step_def

subsection \<open>Concrete field values\<close>

lemma match_colons_upper: "match_mac (upper ''AA:BB:CC:DD:EE:FF'')"
  by code_simp

lemma match_digits: "match_mac (upper ''11:22:33:44:55:66'')"
  by code_simp

lemma no_match_word: "\<not> match_mac (upper ''not-a-mac'')"
  by code_simp

lemma match_hyphens_lower: "match_mac (upper ''aa-bb-cc-dd-ee-ff'')"
  by code_simp

lemma lower_example: "lower ''AA-BB-CC-DD-EE-FF'' = ''aa-bb-cc-dd-ee-ff''"
  by code_simp

lemma mixed_example: "mixed_mac_form ''aa:bb:cc:dd:ee:ff''"
  by code_simp

lemma ascii_colons_upper: "is_ascii ''AA:BB:CC:DD:EE:FF''"
  by code_simp

lemma ascii_digits: "is_ascii ''11:22:33:44:55:66''"
  by code_simp

lemma ascii_word: "is_ascii ''not-a-mac''"
  by code_simp

lemma ascii_hyphens_lower: "is_ascii ''aa-bb-cc-dd-ee-ff''"
  by code_simp

lemma ascii_hyphens_upper: "is_ascii ''AA-BB-CC-DD-EE-FF''"
  by code_simp

lemma ascii_leading_space: "is_ascii '' AA:BB:CC:DD:EE:FF''"
  by code_simp

lemma trim_leading_space: "trim '' AA:BB:CC:DD:EE:FF'' = ''AA:BB:CC:DD:EE:FF''"
  by code_simp

lemma ascii_colons_lower_newline: "is_ascii (''aa:bb:cc:dd:ee:ff'' @ [CHR 0x0A])"
  by code_simp

lemma match_colons_lower_newline: "match_mac (upper (''aa:bb:cc:dd:ee:ff'' @ [CHR 0x0A]))"
  by code_simp

section \<open>Properties\<close>

subsection \<open>URL construction\<close>

text \<open>
  C9. \<open>create_url\<close> raises \<open>URLError\<close> exactly for the endpoints that do not begin
  with \<open>/\<close> (the empty endpoint among them); for every other endpoint it returns the
  base URL followed by the endpoint, unchanged.
\<close>

theorem create_url_spec:
  "((\<exists>e. create_url endpoint = Inl e) \<longleftrightarrow> \<not> (\<exists>rest. endpoint = CHR ''/'' # rest))
   \<and> (\<not> (\<exists>rest. endpoint = CHR ''/'' # rest) \<longrightarrow> create_url endpoint = Inl (URLError endpoint))
   \<and> ((\<exists>rest. endpoint = CHR ''/'' # rest) \<longrightarrow> create_url endpoint = Inr (BASE_URL @ endpoint))"
  by (cases endpoint) (auto simp: create_url_def)

theorem create_url_spec_witness:
  "create_url ''/inventory/items'' = Inr (BASE_URL @ ''/inventory/items'')
   \<and> create_url ''inventory/items'' = Inl (URLError ''inventory/items'')
   \<and> create_url '''' = Inl (URLError '''')"
  using create_url_spec [of "''/inventory/items''"] create_url_spec [of "''inventory/items''"]
    create_url_spec [of "''''"]
  by simp

subsection \<open>The device filter\<close>

text \<open>
  C1, as the code has it. For an eligible item with ASCII field values and at least one
  matching field (so also with more than one), the filter holds exactly one entry for the
  item, and its mac is the value of the last matching field in field order: every
  matching field assigns the entry again and the loop does not stop at the first.
\<close>

theorem last_matching_field_wins:
  assumes "assignee_type it \<notin> {''generic_inventory_assignees'', ''inventory_locations'', ''vehicles''}"
    and "inventory_model_id it \<in> set models"
    and "\<forall>f\<in>set (item_fields it). is_ascii (data f)"
    and "filter (\<lambda>f. match_mac (upper (data f))) (item_fields it) \<noteq> []"
    and "distinct (map fst macs)"
  shows "filter (\<lambda>e. fst e = item_id it) (item_step models it macs) =
     [(item_id it, \<lparr>device_assignee_id = assignee_id it,
        mac = data (last (filter (\<lambda>f. match_mac (upper (data f))) (item_fields it)))\<rparr>)]"
proof -
  have step: "item_step models it macs = fold (field_step it) (item_fields it) macs"
    using assms(1,2) by (simp add: item_step_def)
  show ?thesis
    unfolding step
    by (rule distinct_single_entry)
      (simp_all add: fold_field_step_distinct assms(5) fold_field_step_last assms(4))
qed

theorem last_matching_field_wins_witness:
  "filter (\<lambda>e. fst e = 10)
     (item_step [1] \<lparr>item_id = 10, assignee_type = ''account'', assignee_id = 100,
        inventory_model_id = 1,
        item_fields = [\<lparr>data = ''not-a-mac''\<rparr>, \<lparr>data = ''AA:BB:CC:DD:EE:FF''\<rparr>,
                       \<lparr>data = ''11:22:33:44:55:66''\<rparr>]\<rparr> []) =
   [(10, \<lparr>device_assignee_id = 100, mac = ''11:22:33:44:55:66''\<rparr>)]"
  using last_matching_field_wins [of "\<lparr>item_id = 10, assignee_type = ''account'', assignee_id = 100,
        inventory_model_id = 1,
        item_fields = [\<lparr>data = ''not-a-mac''\<rparr>, \<lparr>data = ''AA:BB:CC:DD:EE:FF''\<rparr>,
                       \<lparr>data = ''11:22:33:44:55:66''\<rparr>]\<rparr>" "[1]" "[]"]
  by (simp add: match_colons_upper match_digits no_match_word
      ascii_colons_upper ascii_digits ascii_word)

text \<open>
  C1 as stated fails: with the fields \<open>not-a-mac\<close>, \<open>AA:BB:CC:DD:EE:FF\<close>,
  \<open>11:22:33:44:55:66\<close> the kept mac is the third value, not the second.
\<close>

theorem first_match_wins_counterexample:
  "item_step [1] \<lparr>item_id = 10, assignee_type = ''account'', assignee_id = 100,
        inventory_model_id = 1,
        item_fields = [\<lparr>data = ''not-a-mac''\<rparr>, \<lparr>data = ''AA:BB:CC:DD:EE:FF''\<rparr>,
                       \<lparr>data = ''11:22:33:44:55:66''\<rparr>]\<rparr> []
   = [(10, \<lparr>device_assignee_id = 100, mac = ''11:22:33:44:55:66''\<rparr>)]
   \<and> map_of (item_step [1] \<lparr>item_id = 10, assignee_type = ''account'', assignee_id = 100,
        inventory_model_id = 1,
        item_fields = [\<lparr>data = ''not-a-mac''\<rparr>, \<lparr>data = ''AA:BB:CC:DD:EE:FF''\<rparr>,
                       \<lparr>data = ''11:22:33:44:55:66''\<rparr>]\<rparr> []) 10
     \<noteq> Some \<lparr>device_assignee_id = 100, mac = ''AA:BB:CC:DD:EE:FF''\<rparr>"
  by (simp add: item_step_def field_step_def match_colons_upper match_digits no_match_word)

text \<open>
  C8. An item whose assignee type is one of the three excluded categories leaves the
  mapping as it was, whatever its model and its fields.
\<close>

theorem excluded_assignee_rejected:
  "assignee_type it \<in> {''generic_inventory_assignees'', ''inventory_locations'', ''vehicles''}
   \<Longrightarrow> item_step models it macs = macs"
  by (auto simp: item_step_def)

theorem excluded_assignee_rejected_witness:
  "item_step [1] \<lparr>item_id = 10, assignee_type = ''vehicles'', assignee_id = 100,
        inventory_model_id = 1, item_fields = [\<lparr>data = ''AA:BB:CC:DD:EE:FF''\<rparr>]\<rparr> [] = []"
  using excluded_assignee_rejected [of "\<lparr>item_id = 10, assignee_type = ''vehicles'', assignee_id = 100,
        inventory_model_id = 1, item_fields = [\<lparr>data = ''AA:BB:CC:DD:EE:FF''\<rparr>]\<rparr>" "[1]" "[]"]
  by simp

subsection \<open>The MAC pattern\<close>

text \<open>
  C4, as the code has it. On ASCII field values, the pattern applied to the uppercased
  value accepts exactly: six groups of two hex digits (either case) joined by five
  separators, each of them a colon or a hyphen independently of the others, and the same
  followed by one final newline. So \<open>AA:BB:CC:DD:EE:FF\<close> and \<open>aa-bb-cc-dd-ee-ff\<close>
  match and \<open>AA:BB:CC:DD:EE\<close> does not.
\<close>

theorem mac_pattern_accepts:
  "is_ascii v \<Longrightarrow>
   match_mac (upper v) \<longleftrightarrow>
     mixed_mac_form v \<or> (v \<noteq> [] \<and> last v = CHR 0x0A \<and> mixed_mac_form (butlast v))"
  by (rule match_mac_upper_iff)

theorem mac_pattern_accepts_witness:
  "match_mac (upper ''AA:BB:CC:DD:EE:FF'') \<and> match_mac (upper ''aa-bb-cc-dd-ee-ff'')
   \<and> \<not> match_mac (upper ''AA:BB:CC:DD:EE'') \<and> match_mac (upper ''AA:BB-CC:DD:EE:FF'')"
  using mac_pattern_accepts [of "''AA:BB:CC:DD:EE:FF''"]
    mac_pattern_accepts [of "''aa-bb-cc-dd-ee-ff''"]
    mac_pattern_accepts [of "''AA:BB:CC:DD:EE''"]
    mac_pattern_accepts [of "''AA:BB-CC:DD:EE:FF''"]
  by (simp add: is_ascii_def mixed_mac_form_def six_hex_groups_def hex_group_def is_hex_def)

text \<open>
  C4 as stated fails: \<open>AA:BB-CC:DD:EE:FF\<close> mixes the two separators and matches;
  the character class \<open>[:-]\<close> is tried afresh at every separator.
\<close>

theorem consistent_separators_counterexample:
  "match_mac (upper ''AA:BB-CC:DD:EE:FF'') \<and> \<not> consistent_mac_form ''AA:BB-CC:DD:EE:FF''"
  by code_simp

text \<open>
  C7, as the code has it. On ASCII values the match is decided on the uppercased value,
  which is not trimmed: a value matches exactly when its trimmed form matches and the
  value is its trimmed form, or that followed by one newline. So a value with other
  leading or trailing whitespace does not match, and a value matches exactly when its
  uppercased or lowercased spelling does. A matching field stores the value as it came,
  with its case and separators; a field that does not match leaves the mapping alone.
\<close>

theorem match_on_upper_keeps_value:
  assumes "is_ascii v" and "is_ascii (data f)"
  shows "(match_mac (upper v) \<longleftrightarrow>
            match_mac (upper (trim v)) \<and> (v = trim v \<or> v = trim v @ [CHR 0x0A]))
   \<and> (trim v \<noteq> v \<and> v \<noteq> trim v @ [CHR 0x0A] \<longrightarrow> \<not> match_mac (upper v))
   \<and> match_mac (upper (upper v)) = match_mac (upper v)
   \<and> match_mac (upper (lower v)) = match_mac (upper v)
   \<and> (match_mac (upper (data f)) \<longrightarrow>
        map_of (field_step it f macs) (item_id it) =
          Some \<lparr>device_assignee_id = assignee_id it, mac = data f\<rparr>)
   \<and> (\<not> match_mac (upper (data f)) \<longrightarrow> field_step it f macs = macs)"
proof -
  have decided: "match_mac (upper v) \<longleftrightarrow>
      match_mac (upper (trim v)) \<and> (v = trim v \<or> v = trim v @ [CHR 0x0A])"
    by (rule match_mac_trim)
  then have untrimmed: "trim v \<noteq> v \<and> v \<noteq> trim v @ [CHR 0x0A] \<longrightarrow> \<not> match_mac (upper v)"
    by auto
  have stored: "match_mac (upper (data f)) \<longrightarrow>
        map_of (field_step it f macs) (item_id it) =
          Some \<lparr>device_assignee_id = assignee_id it, mac = data f\<rparr>"
    by (simp add: field_step_def AList.update_conv')
  have skipped: "\<not> match_mac (upper (data f)) \<longrightarrow> field_step it f macs = macs"
    by (simp add: field_step_def)
  from decided untrimmed stored skipped show ?thesis
    by (simp add: upper_idem upper_lower)
qed

theorem match_on_upper_keeps_value_witness:
  "match_mac (upper (lower ''AA-BB-CC-DD-EE-FF''))
   \<and> \<not> match_mac (upper '' AA:BB:CC:DD:EE:FF'')
   \<and> map_of (field_step \<lparr>item_id = 10, assignee_type = ''account'', assignee_id = 100,
        inventory_model_id = 1, item_fields = [\<lparr>data = ''aa-bb-cc-dd-ee-ff''\<rparr>]\<rparr>
        \<lparr>data = ''aa-bb-cc-dd-ee-ff''\<rparr> []) 10
     = Some \<lparr>device_assignee_id = 100, mac = ''aa-bb-cc-dd-ee-ff''\<rparr>
   \<and> field_step \<lparr>item_id = 10, assignee_type = ''account'', assignee_id = 100,
        inventory_model_id = 1, item_fields = [\<lparr>data = ''not-a-mac''\<rparr>]\<rparr>
        \<lparr>data = ''not-a-mac''\<rparr> [] = []"
  using match_on_upper_keeps_value [of "''AA-BB-CC-DD-EE-FF''" "\<lparr>data = ''aa-bb-cc-dd-ee-ff''\<rparr>"
      "\<lparr>item_id = 10, assignee_type = ''account'', assignee_id = 100,
        inventory_model_id = 1, item_fields = [\<lparr>data = ''aa-bb-cc-dd-ee-ff''\<rparr>]\<rparr>" "[]"]
    match_on_upper_keeps_value [of "'' AA:BB:CC:DD:EE:FF''" "\<lparr>data = ''not-a-mac''\<rparr>"
      "\<lparr>item_id = 10, assignee_type = ''account'', assignee_id = 100,
        inventory_model_id = 1, item_fields = [\<lparr>data = ''not-a-mac''\<rparr>]\<rparr>" "[]"]
  by (simp add: match_hyphens_lower no_match_word lower_example trim_leading_space
      ascii_hyphens_lower ascii_hyphens_upper ascii_leading_space ascii_word)

text \<open>
  C7 as stated fails: a value with a leading space matches once trimmed, and the
  filter, which does not trim, rejects it.
\<close>

theorem trimmed_match_counterexample:
  "match_mac (upper (trim '' AA:BB:CC:DD:EE:FF'')) \<and> \<not> match_mac (upper '' AA:BB:CC:DD:EE:FF'')"
  by code_simp

text \<open>
  C10, as the code has it. For an eligible item with ASCII field values, a field whose
  value is a MAC string followed by one newline matches, and the value with its newline
  is the item's mac when no later field of the item matches.
\<close>

theorem trailing_newline_accepted:
  assumes "mixed_mac_form m"
    and "assignee_type it \<notin> {''generic_inventory_assignees'', ''inventory_locations'', ''vehicles''}"
    and "inventory_model_id it \<in> set models"
    and "\<forall>f\<in>set (item_fields it). is_ascii (data f)"
    and "item_fields it = before @ \<lparr>data = m @ [CHR 0x0A]\<rparr> # after"
    and "\<forall>f\<in>set after. \<not> match_mac (upper (data f))"
  shows "match_mac (upper (m @ [CHR 0x0A]))
    \<and> map_of (item_step models it macs) (item_id it)
        = Some \<lparr>device_assignee_id = assignee_id it, mac = m @ [CHR 0x0A]\<rparr>"
proof -
  let ?f = "\<lparr>data = m @ [CHR 0x0A]\<rparr>"
  have m: "match_mac (upper (m @ [CHR 0x0A]))"
    using assms(1) by (simp add: match_mac_upper_iff)
  have "filter (\<lambda>f. match_mac (upper (data f))) after = []"
    using assms(6) by (simp add: filter_empty_conv)
  then have "fold (field_step it) after ms = ms" for ms
    by (rule fold_field_step_none)
  then have "item_step models it macs = fold (field_step it) (before @ [?f]) macs"
    using assms(2,3,5) by (simp add: item_step_def)
  moreover have "map_of (fold (field_step it) (before @ [?f]) macs) (item_id it)
      = Some \<lparr>device_assignee_id = assignee_id it, mac = m @ [CHR 0x0A]\<rparr>"
    using m by (simp add: field_step_def AList.update_conv')
  ultimately show ?thesis
    using m by simp
qed

theorem trailing_newline_accepted_witness:
  "match_mac (upper (''aa:bb:cc:dd:ee:ff'' @ [CHR 0x0A]))
   \<and> map_of (item_step [1] \<lparr>item_id = 10, assignee_type = ''account'', assignee_id = 100,
        inventory_model_id = 1,
        item_fields = [\<lparr>data = ''11:22:33:44:55:66''\<rparr>,
                       \<lparr>data = ''aa:bb:cc:dd:ee:ff'' @ [CHR 0x0A]\<rparr>,
                       \<lparr>data = ''not-a-mac''\<rparr>]\<rparr> []) 10
     = Some \<lparr>device_assignee_id = 100, mac = ''aa:bb:cc:dd:ee:ff'' @ [CHR 0x0A]\<rparr>"
  using trailing_newline_accepted [of "''aa:bb:cc:dd:ee:ff''"
      "\<lparr>item_id = 10, assignee_type = ''account'', assignee_id = 100,
        inventory_model_id = 1,
        item_fields = [\<lparr>data = ''11:22:33:44:55:66''\<rparr>,
                       \<lparr>data = ''aa:bb:cc:dd:ee:ff'' @ [CHR 0x0A]\<rparr>,
                       \<lparr>data = ''not-a-mac''\<rparr>]\<rparr>" "[1]"
      "[\<lparr>data = ''11:22:33:44:55:66''\<rparr>]" "[\<lparr>data = ''not-a-mac''\<rparr>]" "[]"]
  by (simp add: mixed_example no_match_word ascii_digits ascii_word
      ascii_colons_lower_newline [simplified])

text \<open>
  C10 as stated fails: when a later field matches too, the later value replaces the one
  with the newline.
\<close>

theorem newline_value_overwritten_counterexample:
  "match_mac (upper (''aa:bb:cc:dd:ee:ff'' @ [CHR 0x0A]))
   \<and> item_step [1] \<lparr>item_id = 10, assignee_type = ''account'', assignee_id = 100,
        inventory_model_id = 1,
        item_fields = [\<lparr>data = ''aa:bb:cc:dd:ee:ff'' @ [CHR 0x0A]\<rparr>,
                       \<lparr>data = ''11:22:33:44:55:66''\<rparr>]\<rparr> []
     = [(10, \<lparr>device_assignee_id = 100, mac = ''11:22:33:44:55:66''\<rparr>)]
   \<and> map_of (item_step [1] \<lparr>item_id = 10, assignee_type = ''account'', assignee_id = 100,
        inventory_model_id = 1,
        item_fields = [\<lparr>data = ''aa:bb:cc:dd:ee:ff'' @ [CHR 0x0A]\<rparr>,
                       \<lparr>data = ''11:22:33:44:55:66''\<rparr>]\<rparr> []) 10
     \<noteq> Some \<lparr>device_assignee_id = 100, mac = ''aa:bb:cc:dd:ee:ff'' @ [CHR 0x0A]\<rparr>"
  by (simp add: item_step_def field_step_def match_colons_lower_newline [simplified] match_digits)

subsection \<open>Pagination\<close>

text \<open>
  C6. When the request without a page reports \<open>N\<close> pages of models (\<open>M\<close> of items)
  and every page request succeeds, the models loop and the items loop run over the
  concatenation of the records of pages \<open>0..N-1\<close> (\<open>0..M-1\<close>) in page order: the model
  list is the ids of the target manufacturer in that order, and the device mapping is the
  item loop folded over that sequence. The requests sent are, in order, the request
  without a page followed by one request for each page \<open>0..N-1\<close>, for models and then
  for items; no request occurs twice. The records that the request without a page
  carries are not used.
\<close>

theorem pagination_concatenates_pages:
  fixes w :: "'c world"
  assumes "status_code (server w (page_request ''/inventory/models'' None)) = 200"
    and "total_pages (json (server w (page_request ''/inventory/models'' None))) = Inr N"
    and "\<forall>p\<in>set [0..N - 1].
      status_code (server w (page_request ''/inventory/models'' (Some p))) = 200
      \<and> models_data (json (server w (page_request ''/inventory/models'' (Some p)))) = Inr (model_records p)"
    and "status_code (server w (page_request ''/inventory/items'' None)) = 200"
    and "total_pages (json (server w (page_request ''/inventory/items'' None))) = Inr M"
    and "\<forall>p\<in>set [0..M - 1].
      status_code (server w (page_request ''/inventory/items'' (Some p))) = 200
      \<and> items_data (json (server w (page_request ''/inventory/items'' (Some p)))) = Inr (item_records p)"
  shows "get_all_ubiquiti_models w =
      (Inr (map model_id (filter (\<lambda>m. manufacturer_id m = 1) (concat (map model_records [0..N - 1])))),
       w\<lparr>log := log w
          @ page_request ''/inventory/models'' None
          # map (\<lambda>p. page_request ''/inventory/models'' (Some p)) [0..N - 1]\<rparr>)
    \<and> get_all_active_ubiquiti_inventory_macs w =
      (Inr (fold (item_step
                (map model_id (filter (\<lambda>m. manufacturer_id m = 1) (concat (map model_records [0..N - 1])))))
             (concat (map item_records [0..M - 1])) []),
       w\<lparr>log := log w
          @ page_request ''/inventory/models'' None
          # map (\<lambda>p. page_request ''/inventory/models'' (Some p)) [0..N - 1]
          @ page_request ''/inventory/items'' None
          # map (\<lambda>p. page_request ''/inventory/items'' (Some p)) [0..M - 1]\<rparr>)
    \<and> distinct (page_request ''/inventory/models'' None
          # map (\<lambda>p. page_request ''/inventory/models'' (Some p)) [0..N - 1]
          @ page_request ''/inventory/items'' None
          # map (\<lambda>p. page_request ''/inventory/items'' (Some p)) [0..M - 1])"
proof -
  have a: "get_all_ubiquiti_models w =
      (Inr (fold model_step (concat (map model_records [0..N - 1])) []),
       w\<lparr>log := log w
          @ page_request ''/inventory/models'' None
          # map (\<lambda>p. page_request ''/inventory/models'' (Some p)) [0..N - 1]\<rparr>)"
    using assms(1,2,3) by (rule get_all_ubiquiti_models_ok)
  have b: "get_all_active_ubiquiti_inventory_macs w =
     (Inr (fold (item_step (fold model_step (concat (map model_records [0..N - 1])) []))
             (concat (map item_records [0..M - 1])) []),
      w\<lparr>log := log w
          @ page_request ''/inventory/models'' None
          # map (\<lambda>p. page_request ''/inventory/models'' (Some p)) [0..N - 1]
          @ page_request ''/inventory/items'' None
          # map (\<lambda>p. page_request ''/inventory/items'' (Some p)) [0..M - 1]\<rparr>)"
    using assms by (rule get_all_macs_ok)
  show ?thesis
    using a b page_requests_distinct [of N M] by (simp add: fold_model_step)
qed

theorem pagination_concatenates_pages_witness:
  "get_all_active_ubiquiti_inventory_macs
     \<lparr>server = stub_server
        [[\<lparr>model_id = 1, manufacturer_id = 1\<rparr>, \<lparr>model_id = 2, manufacturer_id = 7\<rparr>],
         [\<lparr>model_id = 3, manufacturer_id = 1\<rparr>]]
        [[\<lparr>item_id = 10, assignee_type = ''accounts'', assignee_id = 100, inventory_model_id = 3,
           item_fields = [\<lparr>data = ''AA:BB:CC:DD:EE:FF''\<rparr>]\<rparr>],
         [\<lparr>item_id = 11, assignee_type = ''accounts'', assignee_id = 101, inventory_model_id = 2,
           item_fields = [\<lparr>data = ''11:22:33:44:55:66''\<rparr>]\<rparr>,
          \<lparr>item_id = 12, assignee_type = ''network_sites'', assignee_id = 102, inventory_model_id = 1,
           item_fields = [\<lparr>data = ''11:22:33:44:55:66''\<rparr>]\<rparr>]]
        ([] :: unit feature list) [],
      log = []\<rparr>
   = (Inr [(10, \<lparr>device_assignee_id = 100, mac = ''AA:BB:CC:DD:EE:FF''\<rparr>),
           (12, \<lparr>device_assignee_id = 102, mac = ''11:22:33:44:55:66''\<rparr>)],
      \<lparr>server = stub_server
        [[\<lparr>model_id = 1, manufacturer_id = 1\<rparr>, \<lparr>model_id = 2, manufacturer_id = 7\<rparr>],
         [\<lparr>model_id = 3, manufacturer_id = 1\<rparr>]]
        [[\<lparr>item_id = 10, assignee_type = ''accounts'', assignee_id = 100, inventory_model_id = 3,
           item_fields = [\<lparr>data = ''AA:BB:CC:DD:EE:FF''\<rparr>]\<rparr>],
         [\<lparr>item_id = 11, assignee_type = ''accounts'', assignee_id = 101, inventory_model_id = 2,
           item_fields = [\<lparr>data = ''11:22:33:44:55:66''\<rparr>]\<rparr>,
          \<lparr>item_id = 12, assignee_type = ''network_sites'', assignee_id = 102, inventory_model_id = 1,
           item_fields = [\<lparr>data = ''11:22:33:44:55:66''\<rparr>]\<rparr>]]
        [] [],
      log = [page_request ''/inventory/models'' None,
             page_request ''/inventory/models'' (Some 0),
             page_request ''/inventory/models'' (Some 1),
             page_request ''/inventory/items'' None,
             page_request ''/inventory/items'' (Some 0),
             page_request ''/inventory/items'' (Some 1)]\<rparr>)"
  (is "get_all_active_ubiquiti_inventory_macs \<lparr>server = stub_server ?mp ?ip [] [], log = []\<rparr> = _")
proof -
  let ?w = "\<lparr>server = stub_server ?mp ?ip ([] :: unit feature list) [], log = []\<rparr>"
  have 1: "status_code (server ?w (page_request ''/inventory/models'' None)) = 200"
    by (simp add: stub_server_def page_response_def page_request_def)
  have 2: "total_pages (json (server ?w (page_request ''/inventory/models'' None))) = Inr 2"
    by (simp add: stub_server_def page_response_def page_request_def)
  have 3: "\<forall>p\<in>set [0..2 - 1].
      status_code (server ?w (page_request ''/inventory/models'' (Some p))) = 200
      \<and> models_data (json (server ?w (page_request ''/inventory/models'' (Some p)))) = Inr (?mp ! nat p)"
    by (simp add: upto_0_1 stub_server_def page_response_def page_request_def)
  have 4: "status_code (server ?w (page_request ''/inventory/items'' None)) = 200"
    by (simp add: stub_server_def page_response_def page_request_def)
  have 5: "total_pages (json (server ?w (page_request ''/inventory/items'' None))) = Inr 2"
    by (simp add: stub_server_def page_response_def page_request_def)
  have 6: "\<forall>p\<in>set [0..2 - 1].
      status_code (server ?w (page_request ''/inventory/items'' (Some p))) = 200
      \<and> items_data (json (server ?w (page_request ''/inventory/items'' (Some p)))) = Inr (?ip ! nat p)"
    by (simp add: upto_0_1 stub_server_def page_response_def page_request_def)
  show ?thesis
    using pagination_concatenates_pages [OF 1 2 3 4 5 6]
    by (simp add: upto_0_1' item_step_def field_step_def match_colons_upper match_digits)
qed

subsection \<open>The geo index\<close>

text \<open>
  C5. The merged index is the accounts mapping overlaid by the network-sites mapping:
  an id that the sites hold has the sites' coordinate, every other id keeps the
  accounts' entry. Merging \<open>{7: (1,1)}\<close> with \<open>{7: (2,2)}\<close> gives \<open>{7: (2,2)}\<close>.
\<close>

theorem geo_index_sites_overwrite_accounts:
  assumes "get_all_accounts_coordinates w = (Inr accounts, w1)"
    and "get_all_network_sites_coordinates w1 = (Inr network_sites, w2)"
  shows "\<exists>merged. get_all_coordinates w = (Inr merged, w2)
    \<and> map_of merged = map_of accounts ++ map_of network_sites
    \<and> (\<forall>k c. map_of network_sites k = Some c \<longrightarrow> map_of merged k = Some c)
    \<and> (\<forall>k. map_of network_sites k = None \<longrightarrow> map_of merged k = map_of accounts k)"
proof -
  let ?merged = "fold (\<lambda>(k, v). AList.update k v) network_sites accounts"
  have run: "get_all_coordinates w = (Inr ?merged, w2)"
    using assms by (simp add: get_all_coordinates_def io_bind_def io_return_def io_lift_def)
  have m: "map_of ?merged = map_of accounts ++ map_of network_sites"
    using assms(2) by (intro merge_map_of) (rule network_sites_distinct)
  show ?thesis
    using run m by (auto simp: map_add_def)
qed

theorem geo_index_sites_overwrite_accounts_witness:
  "\<exists>merged w'. get_all_coordinates
       \<lparr>server = stub_server [] []
          [\<lparr>properties_id = 7, geometry_coordinates = (1::int, 1::int)\<rparr>]
          [\<lparr>properties_id = 7, geometry_coordinates = (2, 2)\<rparr>], log = []\<rparr> = (Inr merged, w')
     \<and> map_of merged = [7 \<mapsto> (2, 2)]"
proof -
  let ?srv = "stub_server [] []
          [\<lparr>properties_id = 7, geometry_coordinates = (1::int, 1::int)\<rparr>]
          [\<lparr>properties_id = 7, geometry_coordinates = (2, 2)\<rparr>]"
  let ?w = "\<lparr>server = ?srv, log = []\<rparr>"
  let ?w1 = "\<lparr>server = ?srv, log = [page_request ''/mapping/geojson/accounts'' None]\<rparr>"
  let ?w2 = "\<lparr>server = ?srv, log = [page_request ''/mapping/geojson/accounts'' None,
      page_request ''/mapping/geojson/network_sites'' None]\<rparr>"
  have 1: "get_all_accounts_coordinates ?w = (Inr [(7, (1, 1))], ?w1)"
    by (simp add: get_all_accounts_coordinates_def io_bind_def io_lift_def io_return_def
        rest_get_def create_url_def stub_server_def page_request_def)
  have 2: "get_all_network_sites_coordinates ?w1 = (Inr [(7, (2, 2))], ?w2)"
    by (simp add: get_all_network_sites_coordinates_def io_bind_def io_lift_def io_return_def
        rest_get_def create_url_def stub_server_def page_request_def)
  from geo_index_sites_overwrite_accounts [OF 1 2] show ?thesis
    by auto
qed

subsection \<open>The join\<close>

text \<open>
  C3. When the device filter and the geo index have both been built and some device
  has an assignee id that the index lacks, the join raises \<open>KeyError\<close> on such an id
  and returns no mapping; the world is as the two fetch phases left it, so nothing is
  requested again.
\<close>

theorem missing_assignee_aborts_join:
  assumes "get_all_active_ubiquiti_inventory_macs w = (Inr macs, w1)"
    and "get_all_coordinates w1 = (Inr coordinates, w2)"
    and "\<exists>e\<in>set macs. map_of coordinates (device_assignee_id (snd e)) = None"
  shows "\<exists>e\<in>set macs. map_of coordinates (device_assignee_id (snd e)) = None
    \<and> match_coordinates_to_inventory w = (Inl (KeyError (IntKey (device_assignee_id (snd e)))), w2)"
proof -
  have "match_coordinates_to_inventory w = (match_loop macs coordinates [], w2)"
    using assms(1,2) by (simp add: match_coordinates_to_inventory_def io_bind_def io_lift_def)
  with match_loop_missing [OF assms(3), of "[]"] show ?thesis by auto
qed


theorem missing_assignee_aborts_join_witness:
  "fst (match_coordinates_to_inventory
     \<lparr>server = stub_server [[\<lparr>model_id = 1, manufacturer_id = 1\<rparr>]]
        [[\<lparr>item_id = 10, assignee_type = ''accounts'', assignee_id = 100, inventory_model_id = 1,
           item_fields = [\<lparr>data = ''AA:BB:CC:DD:EE:FF''\<rparr>]\<rparr>]]
        [\<lparr>properties_id = 5, geometry_coordinates = (5::int, 6::int)\<rparr>] [],
      log = []\<rparr>) = Inl (KeyError (IntKey 100))"
proof -
  let ?srv = "stub_server [[\<lparr>model_id = 1, manufacturer_id = 1\<rparr>]]
        [[\<lparr>item_id = 10, assignee_type = ''accounts'', assignee_id = 100, inventory_model_id = 1,
           item_fields = [\<lparr>data = ''AA:BB:CC:DD:EE:FF''\<rparr>]\<rparr>]]
        [\<lparr>properties_id = 5, geometry_coordinates = (5::int, 6::int)\<rparr>] []"
  let ?l1 = "[page_request ''/inventory/models'' None, page_request ''/inventory/models'' (Some 0),
      page_request ''/inventory/items'' None, page_request ''/inventory/items'' (Some 0)]"
  let ?l2 = "?l1 @ [page_request ''/mapping/geojson/accounts'' None,
      page_request ''/mapping/geojson/network_sites'' None]"
  have 1: "get_all_active_ubiquiti_inventory_macs \<lparr>server = ?srv, log = []\<rparr>
      = (Inr [(10, \<lparr>device_assignee_id = 100, mac = ''AA:BB:CC:DD:EE:FF''\<rparr>)],
         \<lparr>server = ?srv, log = ?l1\<rparr>)"
    by (simp add: run_defs match_colons_upper)
  have 2: "get_all_coordinates \<lparr>server = ?srv, log = ?l1\<rparr>
      = (Inr [(5, (5, 6))], \<lparr>server = ?srv, log = ?l2\<rparr>)"
    by (simp add: run_defs)
  have 3: "\<exists>e\<in>set [(10, \<lparr>device_assignee_id = 100, mac = ''AA:BB:CC:DD:EE:FF''\<rparr>)].
      map_of [(5::int, (5::int, 6::int))] (device_assignee_id (snd e)) = None"
    by simp
  from missing_assignee_aborts_join [OF 1 2 3] show ?thesis
    by simp
qed

text \<open>
  C2. End to end: one page with the model \<open>{id: 1, manufacturer_id: 1}\<close>, one page with
  the item \<open>10\<close> of the account \<open>100\<close> carrying \<open>AA:BB:CC:DD:EE:FF\<close>, the account
  \<open>100\<close> at \<open>(5, 6)\<close> and no network site give exactly the mapping with the one entry
  \<open>AA:BB:CC:DD:EE:FF \<mapsto> (5, 6)\<close>.
\<close>

theorem end_to_end_example:
  "fst (match_coordinates_to_inventory
     \<lparr>server = stub_server [[\<lparr>model_id = 1, manufacturer_id = 1\<rparr>]]
        [[\<lparr>item_id = 10, assignee_type = ''account'', assignee_id = 100, inventory_model_id = 1,
           item_fields = [\<lparr>data = ''AA:BB:CC:DD:EE:FF''\<rparr>]\<rparr>]]
        [\<lparr>properties_id = 100, geometry_coordinates = (5::int, 6::int)\<rparr>] [],
      log = []\<rparr>) = Inr [(''AA:BB:CC:DD:EE:FF'', (5, 6))]"
  by (simp add: run_defs match_colons_upper)

end
